theory Spec2Isabelle
  imports Complex_Main
begin

section \<open>Data model (types.ts)\<close>

text \<open>
  JavaScript numbers are modelled as real numbers: rounding of IEEE doubles is not part of
  the model. Every place where the source can throw (reading a property of
  \<^verbatim>\<open>undefined\<close>) is a branch returning \<open>Inl TypeError\<close>.
\<close>

datatype PhaseType = Inhale | Hold | Exhale | Sustain

record BreathPhase =
  label :: string
  duration :: real
  phase_type :: PhaseType

datatype PresetType = Breathing | Timer

text \<open>The optional fields \<^verbatim>\<open>phases?\<close> and \<^verbatim>\<open>defaultDuration?\<close> are options:
  \<open>None\<close> is \<^verbatim>\<open>undefined\<close>.\<close>

record Preset =
  preset_id :: string
  name :: string
  description :: string
  preset_type :: PresetType
  phases :: "BreathPhase list option"
  defaultDuration :: "real option"
  benefits :: "string list"
  technique :: "string list"

datatype AppState = Idle | Running | Paused | Completed

datatype error = TypeError

section \<open>Component state (the App component)\<close>

text \<open>
  The \<^verbatim>\<open>useState\<close> cells and the \<^verbatim>\<open>previousTimeRef\<close> ref of the component, as one
  record. \<open>previousTimeRef = None\<close> is \<^verbatim>\<open>undefined\<close>. The modal flags and the
  animation-frame handle \<^verbatim>\<open>requestRef\<close> carry no session data and are left out: frames
  are delivered to the model as \<open>Tick\<close> events.
\<close>

record state =
  activePreset :: Preset
  appState :: AppState
  currentPhaseIndex :: nat
  phaseTimeLeft :: real
  totalSessionTime :: real
  timerDuration :: real
  previousTimeRef :: "real option"

text \<open>\<^verbatim>\<open>x || 10\<close> on an optional number: \<^verbatim>\<open>undefined\<close> and \<^verbatim>\<open>0\<close> are falsy.\<close>

definition or_default :: "real option \<Rightarrow> real \<Rightarrow> real" where
  "or_default x d = (case x of None \<Rightarrow> d | Some v \<Rightarrow> if v = 0 then d else v)"

text \<open>
  The state right after mounting: the \<^verbatim>\<open>useState\<close> initialisers. \<^verbatim>\<open>PRESETS[0]\<close> comes
  from a constants module and is a parameter here.
\<close>

definition mount :: "Preset \<Rightarrow> state" where
  "mount p0 =
     \<lparr> activePreset = p0,
       appState = Idle,
       currentPhaseIndex = 0,
       phaseTimeLeft = 0,
       totalSessionTime = 0,
       timerDuration = (case defaultDuration p0 of
                          None \<Rightarrow> 0
                        | Some d \<Rightarrow> if d = 0 then 0 else d * 60),
       previousTimeRef = None \<rparr>"

subsection \<open>initPreset, reset, toggleTimer\<close>

definition initPreset :: "Preset \<Rightarrow> state \<Rightarrow> error + state" where
  "initPreset preset s =
     (let s1 = s\<lparr>activePreset := preset, appState := Idle, totalSessionTime := 0\<rparr> in
      if preset_type preset = Breathing \<and> phases preset \<noteq> None then
        (case the (phases preset) of
           [] \<Rightarrow> Inl TypeError
         | ph # _ \<Rightarrow> Inr (s1\<lparr>currentPhaseIndex := 0, phaseTimeLeft := duration ph\<rparr>))
      else if preset_type preset = Timer then
        Inr (s1\<lparr>timerDuration := or_default (defaultDuration preset) 10 * 60\<rparr>)
      else Inr s1)"

definition reset :: "state \<Rightarrow> error + state" where
  "reset s = initPreset (activePreset s) s"

definition toggleTimer :: "state \<Rightarrow> state" where
  "toggleTimer s =
     (if appState s = Running then s\<lparr>appState := Paused\<rparr>
      else s\<lparr>appState := Running\<rparr>)"

subsection \<open>The animation-frame callback\<close>

text \<open>The local constant \<^verbatim>\<open>deltaTime\<close> of \<^verbatim>\<open>animate\<close>: milliseconds to seconds, as
  the difference comes.\<close>

definition deltaTime :: "real \<Rightarrow> real \<Rightarrow> real" where
  "deltaTime time previous = (time - previous) / 1000"

definition animate :: "real \<Rightarrow> state \<Rightarrow> state" where
  "animate time s =
     (if appState s \<noteq> Running then s
      else
        let s1 =
          (case previousTimeRef s of
             None \<Rightarrow> s
           | Some previous \<Rightarrow>
               let dt = deltaTime time previous;
                   s' = s\<lparr>totalSessionTime := totalSessionTime s + dt\<rparr>
               in if preset_type (activePreset s) = Breathing \<and> phases (activePreset s) \<noteq> None
                  then s'\<lparr>phaseTimeLeft := phaseTimeLeft s - dt\<rparr>
                  else if preset_type (activePreset s) = Timer then
                    (let newTime = timerDuration s - dt in
                     if newTime \<le> 0 then s'\<lparr>appState := Completed, timerDuration := 0\<rparr>
                     else s'\<lparr>timerDuration := newTime\<rparr>)
                  else s')
        in s1\<lparr>previousTimeRef := Some time\<rparr>)"

subsection \<open>The two effects\<close>

text \<open>
  One run of the body of the phase-switch effect. With an empty \<^verbatim>\<open>phases\<close> array the
  index is \<^verbatim>\<open>NaN\<close> and \<^verbatim>\<open>phases[NaN].duration\<close> throws.
\<close>

definition phaseSwitchEffect :: "state \<Rightarrow> error + state" where
  "phaseSwitchEffect s =
     (case phases (activePreset s) of
        None \<Rightarrow> Inr s
      | Some ps \<Rightarrow>
          if preset_type (activePreset s) = Breathing \<and> appState s = Running then
            if phaseTimeLeft s \<le> 0.05 then
              (if length ps = 0 then Inl TypeError
               else
                 let nextIndex = (currentPhaseIndex s + 1) mod length ps in
                 Inr (s\<lparr>currentPhaseIndex := nextIndex,
                        phaseTimeLeft := duration (ps ! nextIndex)\<rparr>))
            else Inr s
          else Inr s)"

text \<open>One run of the body of the start/stop effect: outside \<open>Running\<close> the baseline
  timestamp is cleared.\<close>

definition startStopEffect :: "state \<Rightarrow> state" where
  "startStopEffect s =
     (if appState s = Running then s else s\<lparr>previousTimeRef := None\<rparr>)"

text \<open>
  React re-runs an effect after a render in which one of its dependencies changed. The
  phase-switch effect sets state it depends on, so it runs again until a run changes
  nothing. The loop need not end (two phases of at most 0.05 seconds each switch for
  ever): \<open>None\<close> is that case.
\<close>

partial_function (option) settle :: "state \<Rightarrow> (error + state) option" where
  "settle s =
     (case phaseSwitchEffect s of
        Inl e \<Rightarrow> Some (Inl e)
      | Inr s' \<Rightarrow> if s' = s then Some (Inr s) else settle s')"

text \<open>
  The commit that follows a handler: the start/stop effect depends on \<^verbatim>\<open>appState\<close> and
  on \<^verbatim>\<open>animate\<close>, which is rebuilt when \<^verbatim>\<open>appState\<close> or \<^verbatim>\<open>activePreset\<close> changes.
\<close>

definition commit :: "state \<Rightarrow> state \<Rightarrow> (error + state) option" where
  "commit old new =
     settle (if appState new \<noteq> appState old \<or> activePreset new \<noteq> activePreset old
             then startStopEffect new else new)"

subsection \<open>Events\<close>

text \<open>
  What the component receives: an animation frame with its timestamp, a click on the
  start/pause button, a click on reset, the selection of a preset. Each event is its
  handler followed by the commit; an exception ends the run. A handler reads the state of
  the render that created it; as each event is committed before the next one arrives,
  that is the current state.
\<close>

datatype event = Tick real | Toggle | Reset | Select Preset

definition handler :: "event \<Rightarrow> state \<Rightarrow> error + state" where
  "handler e s =
     (case e of
        Tick time \<Rightarrow> Inr (animate time s)
      | Toggle \<Rightarrow> Inr (toggleTimer s)
      | Reset \<Rightarrow> reset s
      | Select preset \<Rightarrow> initPreset preset s)"

definition step :: "event \<Rightarrow> state \<Rightarrow> (error + state) option" where
  "step e s =
     (case handler e s of
        Inl err \<Rightarrow> Some (Inl err)
      | Inr s1 \<Rightarrow> commit s s1)"

fun run :: "event list \<Rightarrow> state \<Rightarrow> (error + state) option" where
  "run [] s = Some (Inr s)"
| "run (e # es) s =
     (case step e s of
        None \<Rightarrow> None
      | Some (Inl err) \<Rightarrow> Some (Inl err)
      | Some (Inr s') \<Rightarrow> run es s')"

subsection \<open>getVisualState\<close>

text \<open>
  \<open>targetScale = None\<close> stands for a non-finite JavaScript number (a division by a zero
  duration). Reading \<^verbatim>\<open>phases[currentPhaseIndex]\<close> out of range gives \<^verbatim>\<open>undefined\<close>, whose
  \<^verbatim>\<open>duration\<close> throws.
\<close>

record VisualState =
  targetScale :: "real option"
  transition :: string
  vlabel :: string

definition progress_of :: "real \<Rightarrow> BreathPhase \<Rightarrow> real option" where
  "progress_of timeLeft phase =
     (if duration phase = 0 then None else Some (1 - timeLeft / duration phase))"

definition getVisualState :: "state \<Rightarrow> error + VisualState" where
  "getVisualState s =
     (case phases (activePreset s) of
        None \<Rightarrow>
          Inr \<lparr>targetScale = Some 1, transition = ''transform 0.5s ease-out'', vlabel = ''Focus''\<rparr>
      | Some ps \<Rightarrow>
          if currentPhaseIndex s \<ge> length ps then Inl TypeError
          else
            let phase = ps ! currentPhaseIndex s;
                progress = progress_of (phaseTimeLeft s) phase;
                prevPhaseIndex =
                  (if currentPhaseIndex s = 0 then length ps - 1 else currentPhaseIndex s - 1);
                prevPhase = ps ! prevPhaseIndex;
                isPrevInhale = (phase_type prevPhase = Inhale);
                scale =
                  (if phase_type phase = Inhale then map_option (\<lambda>p. 1 + p * 0.8) progress
                   else if phase_type phase = Exhale then map_option (\<lambda>p. 1.8 - p * 0.8) progress
                   else if phase_type phase = Hold then
                     (if isPrevInhale \<or>
                         (phase_type prevPhase = Hold \<and> prevPhaseIndex > 0
                          \<and> phase_type (ps ! (prevPhaseIndex - 1)) = Inhale)
                      then Some 1.8 else Some 1)
                   else Some 1)
            in Inr \<lparr>targetScale = scale, transition = ''transform 0.1s linear'',
                     vlabel = label phase\<rparr>)"

text \<open>What the render uses: the computed state only while a breathing preset runs.\<close>

definition dynamicVisual :: "state \<Rightarrow> error + VisualState" where
  "dynamicVisual s =
     (if appState s = Running \<and> preset_type (activePreset s) = Breathing then getVisualState s
      else Inr \<lparr>targetScale = Some 1, transition = ''transform 0.5s ease-out'',
                vlabel = (if preset_type (activePreset s) = Breathing then ''Ready'' else ''Focus'')\<rparr>)"

section \<open>Properties taken from the specification\<close>

text \<open>
  A preset as the loader is required to deliver it: a breathing preset has a non-empty
  list of phases of positive duration, a timer preset a positive number of minutes.
\<close>

definition valid_preset :: "Preset \<Rightarrow> bool" where
  "valid_preset p =
     (case preset_type p of
        Breathing \<Rightarrow>
          (case phases p of
             None \<Rightarrow> False
           | Some ps \<Rightarrow> ps \<noteq> [] \<and> list_all (\<lambda>ph. 0 < duration ph) ps)
      | Timer \<Rightarrow>
          (case defaultDuration p of None \<Rightarrow> False | Some d \<Rightarrow> 0 < d))"

text \<open>
  An event the environment can deliver. \<^verbatim>\<open>animate\<close> is only ever handed to
  \<^verbatim>\<open>requestAnimationFrame\<close>, whose timestamps do not decrease, so a frame timestamp is
  not earlier than the recorded baseline; and only valid presets are selected.
\<close>

fun admissible :: "event \<Rightarrow> state \<Rightarrow> bool" where
  "admissible (Tick time) s =
     (case previousTimeRef s of None \<Rightarrow> True | Some previous \<Rightarrow> previous \<le> time)"
| "admissible (Select preset) s = valid_preset preset"
| "admissible Toggle s = True"
| "admissible Reset s = True"

fun run_admissible :: "event list \<Rightarrow> state \<Rightarrow> bool" where
  "run_admissible [] s = True"
| "run_admissible (e # es) s =
     (admissible e s \<and>
      (case step e s of Some (Inr s') \<Rightarrow> run_admissible es s' | _ \<Rightarrow> True))"

text \<open>The session clock of the specification: the elapsed time is clamped at zero
  (timestamps in milliseconds, the result in seconds).\<close>

definition spec_delta :: "real \<Rightarrow> real \<Rightarrow> real" where
  "spec_delta now previous = max 0 ((now - previous) / 1000)"

text \<open>The bounds the specification states for a running or paused session.\<close>

definition within_bounds :: "state \<Rightarrow> bool" where
  "within_bounds s =
     (case preset_type (activePreset s) of
        Breathing \<Rightarrow>
          (case phases (activePreset s) of
             None \<Rightarrow> False
           | Some ps \<Rightarrow>
               currentPhaseIndex s < length ps \<and>
               phaseTimeLeft s \<le> duration (ps ! currentPhaseIndex s) + 0.05)
      | Timer \<Rightarrow>
          (case defaultDuration (activePreset s) of
             None \<Rightarrow> False
           | Some d \<Rightarrow> 0 \<le> timerDuration s \<and> timerDuration s \<le> d * 60))"

text \<open>The invariant behind the bounds: the active preset is valid and the bounds hold.\<close>

definition session_ok :: "state \<Rightarrow> bool" where
  "session_ok s = (valid_preset (activePreset s) \<and> within_bounds s)"

text \<open>Every phase of the preset, if it has phases, lasts longer than 0.05 seconds.\<close>

definition phases_exceed_epsilon :: "Preset \<Rightarrow> bool" where
  "phases_exceed_epsilon p =
     (case phases p of None \<Rightarrow> True | Some ps \<Rightarrow> list_all (\<lambda>ph. 0.05 < duration ph) ps)"

text \<open>
  The lookback of the specification for a Hold phase: walk backwards, cyclically, through
  consecutive Hold phases to the nearest other phase; give up after one full turn.
\<close>

fun nearest_non_hold :: "BreathPhase list \<Rightarrow> nat \<Rightarrow> nat \<Rightarrow> PhaseType option" where
  "nearest_non_hold ps i 0 = None"
| "nearest_non_hold ps i (Suc k) =
     (let j = (if i = 0 then length ps - 1 else i - 1) in
      if phase_type (ps ! j) = Hold then nearest_non_hold ps j k
      else Some (phase_type (ps ! j)))"

definition spec_hold_scale :: "BreathPhase list \<Rightarrow> nat \<Rightarrow> real" where
  "spec_hold_scale ps i =
     (if nearest_non_hold ps i (length ps) = Some Inhale then 1.8 else 1)"

section \<open>Concrete presets and states\<close>

text \<open>
  Box breathing (Inhale, Hold, Exhale, Hold, 4 seconds each), a preset with three Hold
  phases in a row, a ten-minute timer and a timer without \<open>defaultDuration\<close>.
\<close>

definition box :: Preset where
  "box =
     \<lparr> preset_id = ''box'', name = ''Box'', description = '''', preset_type = Breathing,
       phases = Some [\<lparr>label = ''In'', duration = 4, phase_type = Inhale\<rparr>,
                      \<lparr>label = ''Hold'', duration = 4, phase_type = Hold\<rparr>,
                      \<lparr>label = ''Out'', duration = 4, phase_type = Exhale\<rparr>,
                      \<lparr>label = ''Hold'', duration = 4, phase_type = Hold\<rparr>],
       defaultDuration = None, benefits = [], technique = [] \<rparr>"

definition long_hold :: Preset where
  "long_hold =
     \<lparr> preset_id = ''hold'', name = ''Hold'', description = '''', preset_type = Breathing,
       phases = Some [\<lparr>label = ''In'', duration = 4, phase_type = Inhale\<rparr>,
                      \<lparr>label = ''Hold'', duration = 2, phase_type = Hold\<rparr>,
                      \<lparr>label = ''Hold'', duration = 2, phase_type = Hold\<rparr>,
                      \<lparr>label = ''Hold'', duration = 2, phase_type = Hold\<rparr>,
                      \<lparr>label = ''Out'', duration = 4, phase_type = Exhale\<rparr>],
       defaultDuration = None, benefits = [], technique = [] \<rparr>"

definition focus :: Preset where
  "focus =
     \<lparr> preset_id = ''focus'', name = ''Focus'', description = '''', preset_type = Timer,
       phases = None, defaultDuration = Some 10, benefits = [], technique = [] \<rparr>"

definition bare_timer :: Preset where
  "bare_timer =
     \<lparr> preset_id = ''bare'', name = ''Bare'', description = '''', preset_type = Timer,
       phases = None, defaultDuration = None, benefits = [], technique = [] \<rparr>"

text \<open>The state in which the ten-minute timer has just run out.\<close>

definition completed_focus :: state where
  "completed_focus = (mount box)\<lparr>activePreset := focus, appState := Completed, totalSessionTime := 600\<rparr>"

text \<open>The ten-minute timer, running, with its full time left and the baseline at 0.\<close>

definition running_focus :: state where
  "running_focus =
     (mount box)\<lparr>activePreset := focus, appState := Running, timerDuration := 600,
                   previousTimeRef := Some 0\<rparr>"

text \<open>The box preset running in its first phase (Inhale, 4 seconds), baseline at 0.\<close>

definition inhaling :: state where
  "inhaling = (mount box)\<lparr>appState := Running, phaseTimeLeft := 4, previousTimeRef := Some 0\<rparr>"

text \<open>The preset with three Hold phases in a row, running in the third of them.\<close>

definition third_hold :: state where
  "third_hold =
     (mount box)\<lparr>activePreset := long_hold, appState := Running, currentPhaseIndex := 3,
                   phaseTimeLeft := 2, totalSessionTime := 8, previousTimeRef := Some 8000\<rparr>"

text \<open>A preset that begins with two Hold phases and ends with an Inhale.\<close>

definition hold_first :: Preset where
  "hold_first =
     \<lparr> preset_id = ''first'', name = ''First'', description = '''', preset_type = Breathing,
       phases = Some [\<lparr>label = ''Hold'', duration = 2, phase_type = Hold\<rparr>,
                      \<lparr>label = ''Hold'', duration = 2, phase_type = Hold\<rparr>,
                      \<lparr>label = ''Out'', duration = 4, phase_type = Exhale\<rparr>,
                      \<lparr>label = ''In'', duration = 4, phase_type = Inhale\<rparr>],
       defaultDuration = None, benefits = [], technique = [] \<rparr>"

text \<open>The preset that begins with two Hold phases, running in the second of them.\<close>

definition second_hold :: state where
  "second_hold =
     (mount box)\<lparr>activePreset := hold_first, appState := Running, currentPhaseIndex := 1,
                   phaseTimeLeft := 2, totalSessionTime := 2, previousTimeRef := Some 2000\<rparr>"

section \<open>The effect loop\<close>

lemma settle_stable: "phaseSwitchEffect s = Inr s \<Longrightarrow> settle s = Some (Inr s)"
  by (subst settle.simps) simp

lemma settle_next: "phaseSwitchEffect s = Inr s' \<Longrightarrow> s' \<noteq> s \<Longrightarrow> settle s = settle s'"
  by (subst settle.simps) simp

lemma settle_error: "phaseSwitchEffect s = Inl e \<Longrightarrow> settle s = Some (Inl e)"
  by (subst settle.simps) simp

lemma settle_invariant:
  assumes "settle s = Some (Inr s')" and "Q s"
    and pres: "\<And>a b. Q a \<Longrightarrow> phaseSwitchEffect a = Inr b \<Longrightarrow> Q b"
  shows "Q s'"
proof -
  have "Q s \<longrightarrow> Q s'"
  proof (rule settle.raw_induct
      [where P = "\<lambda>x y. Q x \<longrightarrow> (case y of Inl e \<Rightarrow> True | Inr z \<Rightarrow> Q z)"
         and s = s and y = "Inr s'", simplified])
    fix f a r
    assume IH: "\<And>x y. f x = Some y \<Longrightarrow> Q x \<longrightarrow> (case y of Inl e \<Rightarrow> True | Inr z \<Rightarrow> Q z)"
      and body: "(case phaseSwitchEffect a of Inl e \<Rightarrow> Some (Inl e)
                  | Inr s' \<Rightarrow> if s' = a then Some (Inr a) else f s') = Some r"
    show "Q a \<longrightarrow> (case r of Inl e \<Rightarrow> True | Inr z \<Rightarrow> Q z)"
    proof (cases "phaseSwitchEffect a")
      case (Inl e)
      with body show ?thesis by auto
    next
      case (Inr b)
      show ?thesis
      proof (cases "b = a")
        case True
        with Inr body have "r = Inr a" by simp
        then show ?thesis by simp
      next
        case False
        with Inr body have "f b = Some r" by simp
        then have "Q b \<longrightarrow> (case r of Inl e \<Rightarrow> True | Inr z \<Rightarrow> Q z)" by (rule IH)
        with pres[OF _ Inr] show ?thesis by blast
      qed
    qed
  next
    show "settle s = Some (Inr s')" by (rule assms(1))
  qed
  with assms(2) show ?thesis by blast
qed

lemma settle_fixpoint:
  assumes "settle s = Some (Inr s')"
  shows "phaseSwitchEffect s' = Inr s'"
proof (rule settle.raw_induct
    [where P = "\<lambda>x y. case y of Inl e \<Rightarrow> True | Inr z \<Rightarrow> phaseSwitchEffect z = Inr z"
       and s = s and y = "Inr s'", simplified])
  fix f a r
  assume IH: "\<And>x y. f x = Some y \<Longrightarrow> (case y of Inl e \<Rightarrow> True | Inr z \<Rightarrow> phaseSwitchEffect z = Inr z)"
    and body: "(case phaseSwitchEffect a of Inl e \<Rightarrow> Some (Inl e)
                | Inr s' \<Rightarrow> if s' = a then Some (Inr a) else f s') = Some r"
  show "case r of Inl e \<Rightarrow> True | Inr z \<Rightarrow> phaseSwitchEffect z = Inr z"
  proof (cases "phaseSwitchEffect a")
    case (Inl e)
    with body show ?thesis by auto
  next
    case (Inr b)
    show ?thesis
    proof (cases "b = a")
      case True
      with Inr body have "r = Inr a" by simp
      with Inr True show ?thesis by simp
    next
      case False
      with Inr body have "f b = Some r" by simp
      then show ?thesis by (rule IH)
    qed
  qed
next
  show "settle s = Some (Inr s')" by (rule assms)
qed

lemma phaseSwitchEffect_frame:
  assumes "phaseSwitchEffect a = Inr b"
  shows "appState b = appState a \<and> activePreset b = activePreset a
       \<and> totalSessionTime b = totalSessionTime a \<and> timerDuration b = timerDuration a
       \<and> previousTimeRef b = previousTimeRef a"
  using assms
  by (auto simp: phaseSwitchEffect_def Let_def split: option.splits if_splits)

lemma settle_frame:
  assumes "settle s = Some (Inr s')"
  shows "appState s' = appState s \<and> activePreset s' = activePreset s
       \<and> totalSessionTime s' = totalSessionTime s \<and> timerDuration s' = timerDuration s
       \<and> previousTimeRef s' = previousTimeRef s"
  by (rule settle_invariant[OF assms, where Q = "\<lambda>x. appState x = appState s \<and> activePreset x = activePreset s
       \<and> totalSessionTime x = totalSessionTime s \<and> timerDuration x = timerDuration s
       \<and> previousTimeRef x = previousTimeRef s"])
     (auto dest: phaseSwitchEffect_frame)

lemma phaseSwitchEffect_idle:
  "appState s \<noteq> Running \<or> preset_type (activePreset s) \<noteq> Breathing \<Longrightarrow> phaseSwitchEffect s = Inr s"
  by (auto simp: phaseSwitchEffect_def split: option.splits)

lemma settle_idle:
  "appState s \<noteq> Running \<or> preset_type (activePreset s) \<noteq> Breathing \<Longrightarrow> settle s = Some (Inr s)"
  by (rule settle_stable) (rule phaseSwitchEffect_idle)

section \<open>Phase switching\<close>



section \<open>Commands\<close>

lemmas run_defs =
  step_def handler_def commit_def startStopEffect_def phaseSwitchEffect_def
  toggleTimer_def animate_def deltaTime_def initPreset_def reset_def or_default_def
  settle_stable settle_next

lemma step_Reset: "step Reset s = step (Select (activePreset s)) s"
  by (simp add: step_def handler_def reset_def)

lemma step_Select_breathing:
  assumes "preset_type p = Breathing" and "phases p = Some (ph # rest)"
  shows "step (Select p) s =
           Some (Inr (s\<lparr>activePreset := p, appState := Idle, totalSessionTime := 0,
                         currentPhaseIndex := 0, phaseTimeLeft := duration ph,
                         previousTimeRef :=
                           (if appState s = Idle \<and> activePreset s = p then previousTimeRef s
                            else None)\<rparr>))"
  using assms
  by (simp add: step_def handler_def initPreset_def commit_def startStopEffect_def settle_idle)

lemma step_Select_timer:
  assumes "preset_type p = Timer"
  shows "step (Select p) s =
           Some (Inr (s\<lparr>activePreset := p, appState := Idle, totalSessionTime := 0,
                         timerDuration := or_default (defaultDuration p) 10 * 60,
                         previousTimeRef :=
                           (if appState s = Idle \<and> activePreset s = p then previousTimeRef s
                            else None)\<rparr>))"
  using assms
  by (simp add: step_def handler_def initPreset_def commit_def startStopEffect_def settle_idle)

text \<open>
  C8. From any state, hence from every run state, selecting a preset sets the run state to
  \<open>Idle\<close> and the elapsed time to 0; for a breathing preset the phase index becomes 0
  and \<open>phaseTimeLeft\<close> the full duration of the first phase, for a timer preset with a
  nonzero number of minutes \<open>timerDuration\<close> becomes that number times 60. Reset is the
  selection of the active preset.
\<close>

theorem reset_reinitialises:
  "(preset_type p = Breathing \<and> phases p = Some (ph # rest) \<longrightarrow>
      step (Select p) s =
        Some (Inr (s\<lparr>activePreset := p, appState := Idle, totalSessionTime := 0,
                      currentPhaseIndex := 0, phaseTimeLeft := duration ph,
                      previousTimeRef :=
                        (if appState s = Idle \<and> activePreset s = p then previousTimeRef s
                         else None)\<rparr>)))
   \<and> (preset_type q = Timer \<and> defaultDuration q = Some d \<and> d \<noteq> 0 \<longrightarrow>
      step (Select q) s =
        Some (Inr (s\<lparr>activePreset := q, appState := Idle, totalSessionTime := 0,
                      timerDuration := d * 60,
                      previousTimeRef :=
                        (if appState s = Idle \<and> activePreset s = q then previousTimeRef s
                         else None)\<rparr>)))
   \<and> step Reset s = step (Select (activePreset s)) s"
  by (simp add: step_Select_breathing step_Select_timer step_Reset or_default_def)

theorem reset_reinitialises_witness:
  "preset_type box = Breathing
   \<and> phases box = Some (\<lparr>label = ''In'', duration = 4, phase_type = Inhale\<rparr> # tl (the (phases box)))
   \<and> step (Select box) completed_focus =
       Some (Inr (completed_focus\<lparr>activePreset := box, appState := Idle, totalSessionTime := 0,
                     currentPhaseIndex := 0, phaseTimeLeft := 4, previousTimeRef := None\<rparr>))
   \<and> preset_type focus = Timer \<and> defaultDuration focus = Some 10 \<and> (10::real) \<noteq> 0
   \<and> step (Select focus) completed_focus =
       Some (Inr (completed_focus\<lparr>activePreset := focus, appState := Idle, totalSessionTime := 0,
                     timerDuration := 600, previousTimeRef := None\<rparr>))
   \<and> step Reset completed_focus = step (Select focus) completed_focus"
  using reset_reinitialises [of box "\<lparr>label = ''In'', duration = 4, phase_type = Inhale\<rparr>"
      "tl (the (phases box))" completed_focus focus 10]
  by (simp add: box_def focus_def completed_focus_def mount_def)

text \<open>
  C10. Selecting or resetting a timer preset whose \<open>defaultDuration\<close> is undefined or
  zero does not fail and sets \<open>timerDuration\<close> to 600 seconds.
\<close>

theorem timer_default_fallback:
  assumes "preset_type p = Timer"
    and "defaultDuration p = None \<or> defaultDuration p = Some 0"
  shows "initPreset p s =
           Inr (s\<lparr>activePreset := p, appState := Idle, totalSessionTime := 0,
                   timerDuration := 600\<rparr>)
       \<and> step (Select p) s =
           Some (Inr (s\<lparr>activePreset := p, appState := Idle, totalSessionTime := 0,
                         timerDuration := 600,
                         previousTimeRef :=
                           (if appState s = Idle \<and> activePreset s = p then previousTimeRef s
                            else None)\<rparr>))
       \<and> (activePreset s = p \<longrightarrow> step Reset s = step (Select p) s)"
  using assms
  by (auto simp: step_Select_timer step_Reset initPreset_def or_default_def)

theorem timer_default_fallback_witness:
  "preset_type bare_timer = Timer
   \<and> (defaultDuration bare_timer = None \<or> defaultDuration bare_timer = Some 0)
   \<and> initPreset bare_timer (mount box) =
       Inr ((mount box)\<lparr>activePreset := bare_timer, timerDuration := 600\<rparr>)
   \<and> step (Select bare_timer) (mount box) =
       Some (Inr ((mount box)\<lparr>activePreset := bare_timer, timerDuration := 600\<rparr>))"
  using timer_default_fallback [of bare_timer "mount box"]
  by (simp add: bare_timer_def box_def mount_def)

lemma initPreset_Idle:
  assumes "initPreset p s = Inr x"
  shows "appState x = Idle \<and> activePreset x = p \<and> totalSessionTime x = 0"
  using assms
  by (auto simp: initPreset_def Let_def split: if_splits list.splits)

lemma step_Select_Idle:
  assumes "step (Select p) s = Some (Inr s')"
  shows "appState s' = Idle \<and> activePreset s' = p"
proof (cases "initPreset p s")
  case (Inl e)
  with assms show ?thesis by (simp add: step_def handler_def)
next
  case (Inr x)
  note idle = initPreset_Idle[OF Inr]
  let ?y = "if appState x \<noteq> appState s \<or> activePreset x \<noteq> activePreset s
            then startStopEffect x else x"
  from idle have "appState ?y = Idle" by (simp add: startStopEffect_def)
  then have "settle ?y = Some (Inr ?y)" by (simp add: settle_idle)
  with assms Inr have "s' = ?y" by (simp add: step_def handler_def commit_def)
  with idle show ?thesis by (auto simp: startStopEffect_def)
qed

text \<open>
  C7 as stated fails. The run that completes the ten-minute timer ends in
  \<open>completed_focus\<close>, and the start/pause button then changes the state: the run state
  becomes \<open>Running\<close>.
\<close>

theorem toggle_on_completed_counterexample:
  "run [Select focus, Toggle, Tick 0, Tick 600000] (mount box) = Some (Inr completed_focus)
   \<and> appState completed_focus = Completed
   \<and> step Toggle completed_focus = Some (Inr (completed_focus\<lparr>appState := Running\<rparr>))
   \<and> step Toggle completed_focus \<noteq> Some (Inr completed_focus)"
  by (simp add: run_defs completed_focus_def mount_def focus_def box_def)

text \<open>
  C7, as the code has it. In run state \<open>Completed\<close> the start/pause command is not an
  error and not a no-op: \<open>toggleTimer\<close> sets the run state to \<open>Running\<close> and changes
  nothing else, and for a timer preset that is the whole effect of the event. Selecting a
  preset and reset lead to \<open>Idle\<close>.
\<close>

theorem toggle_on_completed:
  assumes "appState s = Completed"
  shows "toggleTimer s = s\<lparr>appState := Running\<rparr>
       \<and> (preset_type (activePreset s) = Timer \<longrightarrow>
            step Toggle s = Some (Inr (s\<lparr>appState := Running\<rparr>)))
       \<and> (step (Select p) s = Some (Inr s1) \<longrightarrow> appState s1 = Idle)
       \<and> (step Reset s = Some (Inr s2) \<longrightarrow> appState s2 = Idle)"
proof -
  from assms have toggle: "toggleTimer s = s\<lparr>appState := Running\<rparr>"
    by (simp add: toggleTimer_def)
  have "step Toggle s = Some (Inr (s\<lparr>appState := Running\<rparr>))"
    if "preset_type (activePreset s) = Timer"
    using that assms toggle
    by (simp add: step_def handler_def commit_def startStopEffect_def settle_idle)
  moreover have "appState s1 = Idle" if "step (Select p) s = Some (Inr s1)"
    using step_Select_Idle[OF that] by simp
  moreover have "appState s2 = Idle" if "step Reset s = Some (Inr s2)"
    using that step_Select_Idle[of "activePreset s" s s2] by (simp add: step_Reset)
  ultimately show ?thesis using toggle by blast
qed

theorem toggle_on_completed_witness:
  "appState completed_focus = Completed
   \<and> toggleTimer completed_focus = completed_focus\<lparr>appState := Running\<rparr>
   \<and> preset_type (activePreset completed_focus) = Timer
   \<and> step Toggle completed_focus = Some (Inr (completed_focus\<lparr>appState := Running\<rparr>))
   \<and> step (Select box) completed_focus =
       Some (Inr (completed_focus\<lparr>activePreset := box, appState := Idle,
                     totalSessionTime := 0, phaseTimeLeft := 4\<rparr>))
   \<and> appState (completed_focus\<lparr>activePreset := box, appState := Idle,
                     totalSessionTime := 0, phaseTimeLeft := 4\<rparr>) = Idle
   \<and> step Reset completed_focus =
       Some (Inr (completed_focus\<lparr>appState := Idle, totalSessionTime := 0,
                     timerDuration := 600\<rparr>))
   \<and> appState (completed_focus\<lparr>appState := Idle, totalSessionTime := 0,
                     timerDuration := 600\<rparr>) = Idle"
  using toggle_on_completed [of completed_focus box
      "completed_focus\<lparr>activePreset := box, appState := Idle,
                     totalSessionTime := 0, phaseTimeLeft := 4\<rparr>"
      "completed_focus\<lparr>appState := Idle, totalSessionTime := 0, timerDuration := 600\<rparr>"]
  by (simp add: run_defs settle_idle completed_focus_def mount_def focus_def box_def)

section \<open>Events and runs\<close>

lemma step_cases:
  assumes "step e s = Some (Inr s')"
  obtains x where "handler e s = Inr x"
    and "settle (if appState x \<noteq> appState s \<or> activePreset x \<noteq> activePreset s
                 then startStopEffect x else x) = Some (Inr s')"
  using assms
  by (cases "handler e s") (auto simp: step_def commit_def)

lemma startStopEffect_frame:
  "appState (startStopEffect x) = appState x \<and> activePreset (startStopEffect x) = activePreset x
   \<and> totalSessionTime (startStopEffect x) = totalSessionTime x
   \<and> timerDuration (startStopEffect x) = timerDuration x
   \<and> currentPhaseIndex (startStopEffect x) = currentPhaseIndex x
   \<and> phaseTimeLeft (startStopEffect x) = phaseTimeLeft x"
  by (simp add: startStopEffect_def)

text \<open>What a whole event leaves of the state its handler produced.\<close>

lemma step_frame:
  assumes "step e s = Some (Inr s')"
  obtains x where "handler e s = Inr x"
    and "appState s' = appState x" and "activePreset s' = activePreset x"
    and "totalSessionTime s' = totalSessionTime x" and "timerDuration s' = timerDuration x"
    and "previousTimeRef s' =
           (if appState x \<noteq> appState s \<or> activePreset x \<noteq> activePreset s
            then previousTimeRef (startStopEffect x) else previousTimeRef x)"
proof -
  from assms obtain x where h: "handler e s = Inr x"
    and st: "settle (if appState x \<noteq> appState s \<or> activePreset x \<noteq> activePreset s
                 then startStopEffect x else x) = Some (Inr s')"
    by (rule step_cases)
  from settle_frame[OF st] startStopEffect_frame[of x]
  have "appState s' = appState x" "activePreset s' = activePreset x"
    "totalSessionTime s' = totalSessionTime x" "timerDuration s' = timerDuration x"
    "previousTimeRef s' =
           (if appState x \<noteq> appState s \<or> activePreset x \<noteq> activePreset s
            then previousTimeRef (startStopEffect x) else previousTimeRef x)"
    by (simp_all split: if_splits)
  with h show thesis by (rule that)
qed

lemma step_Tick_not_running:
  assumes "appState s \<noteq> Running"
  shows "step (Tick t) s = Some (Inr s)"
  using assms by (simp add: step_def handler_def animate_def commit_def settle_idle)

lemma run_Ticks_not_running:
  assumes "appState s \<noteq> Running"
  shows "run (map Tick ts) s = Some (Inr s)"
  using assms by (induction ts) (simp_all add: step_Tick_not_running)

lemma run_append:
  "run (es @ fs) s =
     (case run es s of None \<Rightarrow> None | Some (Inl err) \<Rightarrow> Some (Inl err) | Some (Inr s') \<Rightarrow> run fs s')"
  by (induction es arbitrary: s) (auto split: option.splits sum.splits)

lemma run_invariant:
  assumes "run es s = Some (Inr s')" and "Q s"
    and "\<And>e a b. e \<in> set es \<Longrightarrow> Q a \<Longrightarrow> step e a = Some (Inr b) \<Longrightarrow> Q b"
  shows "Q s'"
  using assms
proof (induction es arbitrary: s)
  case Nil
  then show ?case by simp
next
  case (Cons e es)
  from Cons.prems(1) obtain m where m: "step e s = Some (Inr m)" and rest: "run es m = Some (Inr s')"
    by (auto split: option.splits sum.splits)
  from Cons.prems(2) m have "Q m" by (rule Cons.prems(3)[of e, simplified])
  with rest show ?case
    by (rule Cons.IH) (use Cons.prems(3) in auto)
qed

lemma handler_appState:
  assumes "handler e s = Inr x"
  shows "(case e of
            Tick t \<Rightarrow> x = animate t s
          | Toggle \<Rightarrow> appState x = (if appState s = Running then Paused else Running)
                       \<and> previousTimeRef x = previousTimeRef s
          | Reset \<Rightarrow> appState x = Idle \<and> previousTimeRef x = previousTimeRef s
          | Select p \<Rightarrow> appState x = Idle \<and> previousTimeRef x = previousTimeRef s)"
  using assms
  by (cases e)
     (auto simp: handler_def toggleTimer_def reset_def initPreset_def Let_def
           split: if_splits list.splits)

lemma leaving_running_clears:
  assumes "appState s = Running" and "step e s = Some (Inr s')" and "appState s' \<noteq> Running"
  shows "previousTimeRef s' = None"
proof -
  from assms(2) obtain x where "appState s' = appState x"
    and "previousTimeRef s' =
           (if appState x \<noteq> appState s \<or> activePreset x \<noteq> activePreset s
            then previousTimeRef (startStopEffect x) else previousTimeRef x)"
    by (rule step_frame)
  with assms(1,3) show ?thesis by (simp add: startStopEffect_def)
qed

lemma baseline_invariant:
  assumes "appState a \<noteq> Running \<longrightarrow> previousTimeRef a = None"
    and "step e a = Some (Inr b)"
  shows "appState b \<noteq> Running \<longrightarrow> previousTimeRef b = None"
proof
  assume nr: "appState b \<noteq> Running"
  show "previousTimeRef b = None"
  proof (cases "appState a = Running")
    case True
    then show ?thesis using assms(2) nr by (rule leaving_running_clears)
  next
    case False
    with assms(1) have none: "previousTimeRef a = None" by simp
    from assms(2) obtain x where h: "handler e a = Inr x" and "appState b = appState x"
      and pb: "previousTimeRef b =
           (if appState x \<noteq> appState a \<or> activePreset x \<noteq> activePreset a
            then previousTimeRef (startStopEffect x) else previousTimeRef x)"
      by (rule step_frame)
    with nr have xr: "appState x \<noteq> Running" by simp
    have "previousTimeRef x = None"
      using handler_appState[OF h] none False by (cases e) (auto simp: animate_def)
    with pb xr show ?thesis by (simp add: startStopEffect_def)
  qed
qed

text \<open>Every state reached from mounting is one in which the phase-switch effect has
  nothing left to do.\<close>

lemma step_settled:
  assumes "step e s = Some (Inr s')"
  shows "phaseSwitchEffect s' = Inr s'"
  using assms by (elim step_cases) (rule settle_fixpoint)

lemma reachable_settled:
  assumes "run es (mount p0) = Some (Inr r)"
  shows "phaseSwitchEffect r = Inr r"
  by (rule run_invariant[OF assms, where Q = "\<lambda>x. phaseSwitchEffect x = Inr x"])
     (simp_all add: phaseSwitchEffect_idle mount_def step_settled)

lemma mount_baseline: "previousTimeRef (mount p0) = None"
  by (simp add: mount_def)

lemma animate_first_tick:
  assumes "appState s = Running" and "previousTimeRef s = None"
  shows "animate t s = s\<lparr>previousTimeRef := Some t\<rparr>"
  using assms by (simp add: animate_def)

lemma animate_total:
  assumes "appState s = Running" and "previousTimeRef s = Some p"
  shows "totalSessionTime (animate t s) = totalSessionTime s + deltaTime t p
       \<and> previousTimeRef (animate t s) = Some t"
  using assms by (simp add: animate_def Let_def)

section \<open>The session clock\<close>

lemma entering_running:
  assumes "appState r \<noteq> Running" and "step Toggle r = Some (Inr r')"
  shows "appState r' = Running \<and> previousTimeRef r' = previousTimeRef r"
proof -
  from assms(2) obtain x where h: "handler Toggle r = Inr x" and "appState r' = appState x"
    and pb: "previousTimeRef r' =
           (if appState x \<noteq> appState r \<or> activePreset x \<noteq> activePreset r
            then previousTimeRef (startStopEffect x) else previousTimeRef x)"
    by (rule step_frame)
  moreover from h assms(1) have "x = r\<lparr>appState := Running\<rparr>"
    by (simp add: handler_def toggleTimer_def)
  ultimately show ?thesis by (simp add: startStopEffect_def)
qed

text \<open>On a frame the frame source can deliver, the delta the code computes is the clamped
  delta of the specification.\<close>

lemma deltaTime_admissible:
  assumes "previousTimeRef s = Some p" and "admissible (Tick t) s"
  shows "deltaTime t p = spec_delta t p \<and> 0 \<le> spec_delta t p"
  using assms by (simp add: deltaTime_def spec_delta_def)

lemma animate_later_tick:
  assumes "appState s = Running" and "previousTimeRef s = Some p" and "admissible (Tick t) s"
  shows "totalSessionTime (animate t s) = totalSessionTime s + spec_delta t p"
    and "preset_type (activePreset s) = Breathing \<and> phases (activePreset s) \<noteq> None \<longrightarrow>
           phaseTimeLeft (animate t s) = phaseTimeLeft s - spec_delta t p"
    and "preset_type (activePreset s) = Timer \<longrightarrow>
           timerDuration (animate t s) =
             (if timerDuration s - spec_delta t p \<le> 0 then 0
              else timerDuration s - spec_delta t p)"
    and "previousTimeRef (animate t s) = Some t"
proof -
  from assms(2,3) have d: "deltaTime t p = spec_delta t p"
    by (simp add: deltaTime_admissible)
  from assms(1,2) show "totalSessionTime (animate t s) = totalSessionTime s + spec_delta t p"
    by (simp add: animate_def Let_def d)
  from assms(1,2)
  show "preset_type (activePreset s) = Breathing \<and> phases (activePreset s) \<noteq> None \<longrightarrow>
           phaseTimeLeft (animate t s) = phaseTimeLeft s - spec_delta t p"
    by (simp add: animate_def Let_def d)
  from assms(1,2)
  show "preset_type (activePreset s) = Timer \<longrightarrow>
           timerDuration (animate t s) =
             (if timerDuration s - spec_delta t p \<le> 0 then 0
              else timerDuration s - spec_delta t p)"
    by (simp add: animate_def Let_def d)
  from assms(1,2) show "previousTimeRef (animate t s) = Some t"
    by (simp add: animate_def Let_def)
qed

text \<open>
  C2. The first frame of a running period (no baseline) changes nothing but the
  baseline: its elapsed delta is 0. Every later frame of the period, with a timestamp as
  the frame source delivers it (not earlier than the baseline), adds the delta
  \<open>max 0 ((time - previous) / 1000)\<close> seconds to the elapsed time, takes it from the time
  left in the phase or from the remaining timer, and moves the baseline; this delta is
  never negative. Every event that leaves \<open>Running\<close> clears the baseline; hence every
  state reached from mounting that is not running has no baseline, and starting from it
  gives a running state without baseline.
\<close>

theorem session_clock:
  "(appState a = Running \<and> previousTimeRef a = None \<longrightarrow>
      animate t a = a\<lparr>previousTimeRef := Some t\<rparr>)
   \<and> (appState b = Running \<and> previousTimeRef b = Some p \<and> admissible (Tick t) b \<longrightarrow>
      totalSessionTime (animate t b) = totalSessionTime b + spec_delta t p
      \<and> (preset_type (activePreset b) = Breathing \<and> phases (activePreset b) \<noteq> None \<longrightarrow>
           phaseTimeLeft (animate t b) = phaseTimeLeft b - spec_delta t p)
      \<and> (preset_type (activePreset b) = Timer \<longrightarrow>
           timerDuration (animate t b) =
             (if timerDuration b - spec_delta t p \<le> 0 then 0
              else timerDuration b - spec_delta t p))
      \<and> 0 \<le> spec_delta t p
      \<and> previousTimeRef (animate t b) = Some t)
   \<and> (appState c = Running \<and> step e c = Some (Inr c') \<and> appState c' \<noteq> Running \<longrightarrow>
      previousTimeRef c' = None)
   \<and> (run es (mount p0) = Some (Inr r) \<and> appState r \<noteq> Running \<longrightarrow>
      previousTimeRef r = None
      \<and> (step Toggle r = Some (Inr r') \<longrightarrow> appState r' = Running \<and> previousTimeRef r' = None))"
proof -
  have c1: "appState a = Running \<and> previousTimeRef a = None \<longrightarrow>
      animate t a = a\<lparr>previousTimeRef := Some t\<rparr>"
    by (simp add: animate_first_tick)
  have c2: "appState b = Running \<and> previousTimeRef b = Some p \<and> admissible (Tick t) b \<longrightarrow>
      totalSessionTime (animate t b) = totalSessionTime b + spec_delta t p
      \<and> (preset_type (activePreset b) = Breathing \<and> phases (activePreset b) \<noteq> None \<longrightarrow>
           phaseTimeLeft (animate t b) = phaseTimeLeft b - spec_delta t p)
      \<and> (preset_type (activePreset b) = Timer \<longrightarrow>
           timerDuration (animate t b) =
             (if timerDuration b - spec_delta t p \<le> 0 then 0
              else timerDuration b - spec_delta t p))
      \<and> 0 \<le> spec_delta t p
      \<and> previousTimeRef (animate t b) = Some t"
  proof (intro impI, elim conjE)
    assume h: "appState b = Running" "previousTimeRef b = Some p" "admissible (Tick t) b"
    note animate_later_tick[OF h]
    moreover from h(2,3) have "0 \<le> spec_delta t p" by (simp add: deltaTime_admissible)
    ultimately show "totalSessionTime (animate t b) = totalSessionTime b + spec_delta t p
      \<and> (preset_type (activePreset b) = Breathing \<and> phases (activePreset b) \<noteq> None \<longrightarrow>
           phaseTimeLeft (animate t b) = phaseTimeLeft b - spec_delta t p)
      \<and> (preset_type (activePreset b) = Timer \<longrightarrow>
           timerDuration (animate t b) =
             (if timerDuration b - spec_delta t p \<le> 0 then 0
              else timerDuration b - spec_delta t p))
      \<and> 0 \<le> spec_delta t p
      \<and> previousTimeRef (animate t b) = Some t"
      by (intro conjI)
  qed
  have c3: "appState c = Running \<and> step e c = Some (Inr c') \<and> appState c' \<noteq> Running \<longrightarrow>
      previousTimeRef c' = None"
    using leaving_running_clears[of c e c'] by blast
  have c4: "run es (mount p0) = Some (Inr r) \<and> appState r \<noteq> Running \<longrightarrow>
      previousTimeRef r = None
      \<and> (step Toggle r = Some (Inr r') \<longrightarrow> appState r' = Running \<and> previousTimeRef r' = None)"
  proof (intro impI, elim conjE)
    assume reach: "run es (mount p0) = Some (Inr r)" and nr: "appState r \<noteq> Running"
    have "appState r \<noteq> Running \<longrightarrow> previousTimeRef r = None"
      by (rule run_invariant[OF reach,
            where Q = "\<lambda>x. appState x \<noteq> Running \<longrightarrow> previousTimeRef x = None"])
         (simp_all add: mount_baseline baseline_invariant)
    with nr have "previousTimeRef r = None" by simp
    with entering_running[OF nr]
    show "previousTimeRef r = None
      \<and> (step Toggle r = Some (Inr r') \<longrightarrow> appState r' = Running \<and> previousTimeRef r' = None)"
      by simp
  qed
  show ?thesis
    by (rule conjI[OF c1 conjI[OF c2 conjI[OF c3 c4]]])
qed

theorem session_clock_witness:
  "appState ((mount box)\<lparr>appState := Running, currentPhaseIndex := 1, phaseTimeLeft := 4\<rparr>) = Running
   \<and> previousTimeRef ((mount box)\<lparr>appState := Running, currentPhaseIndex := 1, phaseTimeLeft := 4\<rparr>) = None
   \<and> animate 1500 ((mount box)\<lparr>appState := Running, currentPhaseIndex := 1, phaseTimeLeft := 4\<rparr>)
       = (mount box)\<lparr>appState := Running, currentPhaseIndex := 1, phaseTimeLeft := 4,
                      previousTimeRef := Some 1500\<rparr>
   \<and> admissible (Tick 1500) ((mount box)\<lparr>appState := Running, currentPhaseIndex := 1,
         phaseTimeLeft := 4, previousTimeRef := Some 1000\<rparr>)
   \<and> spec_delta 1500 1000 = 1 / 2
   \<and> totalSessionTime (animate 1500 ((mount box)\<lparr>appState := Running, currentPhaseIndex := 1,
         phaseTimeLeft := 4, previousTimeRef := Some 1000\<rparr>)) = 1 / 2
   \<and> phaseTimeLeft (animate 1500 ((mount box)\<lparr>appState := Running, currentPhaseIndex := 1,
         phaseTimeLeft := 4, previousTimeRef := Some 1000\<rparr>)) = 7 / 2
   \<and> previousTimeRef (animate 1500 ((mount box)\<lparr>appState := Running, currentPhaseIndex := 1,
         phaseTimeLeft := 4, previousTimeRef := Some 1000\<rparr>)) = Some 1500
   \<and> step Toggle ((mount box)\<lparr>appState := Running, currentPhaseIndex := 1,
         phaseTimeLeft := 4, previousTimeRef := Some 1000\<rparr>)
       = Some (Inr ((mount box)\<lparr>appState := Paused, currentPhaseIndex := 1, phaseTimeLeft := 4\<rparr>))
   \<and> previousTimeRef ((mount box)\<lparr>appState := Paused, currentPhaseIndex := 1, phaseTimeLeft := 4\<rparr>) = None
   \<and> run [Toggle, Tick 1000, Toggle] (mount box)
       = Some (Inr ((mount box)\<lparr>appState := Paused, currentPhaseIndex := 1, phaseTimeLeft := 4\<rparr>))
   \<and> step Toggle ((mount box)\<lparr>appState := Paused, currentPhaseIndex := 1, phaseTimeLeft := 4\<rparr>)
       = Some (Inr ((mount box)\<lparr>appState := Running, currentPhaseIndex := 1, phaseTimeLeft := 4\<rparr>))"
  using session_clock [of "(mount box)\<lparr>appState := Running, currentPhaseIndex := 1, phaseTimeLeft := 4\<rparr>"
      1500
      "(mount box)\<lparr>appState := Running, currentPhaseIndex := 1, phaseTimeLeft := 4,
                    previousTimeRef := Some 1000\<rparr>"
      1000
      "(mount box)\<lparr>appState := Running, currentPhaseIndex := 1, phaseTimeLeft := 4,
                    previousTimeRef := Some 1000\<rparr>"
      Toggle
      "(mount box)\<lparr>appState := Paused, currentPhaseIndex := 1, phaseTimeLeft := 4\<rparr>"
      "[Toggle, Tick 1000, Toggle]" box
      "(mount box)\<lparr>appState := Paused, currentPhaseIndex := 1, phaseTimeLeft := 4\<rparr>"
      "(mount box)\<lparr>appState := Running, currentPhaseIndex := 1, phaseTimeLeft := 4\<rparr>"]
  by (simp add: run_defs settle_idle spec_delta_def mount_def box_def)

section \<open>Completion of a timer\<close>

lemma animate_Completed_iff:
  assumes "appState s \<noteq> Completed"
  shows "appState (animate t s) = Completed \<longleftrightarrow>
           appState s = Running \<and> preset_type (activePreset s) = Timer
           \<and> (\<exists>p. previousTimeRef s = Some p \<and> timerDuration s - deltaTime t p \<le> 0)"
  using assms
  by (cases "preset_type (activePreset s)")
     (auto simp: animate_def Let_def split: option.splits)

lemma animate_Completed_zero:
  assumes "appState s \<noteq> Completed" and "appState (animate t s) = Completed"
  shows "timerDuration (animate t s) = 0"
  using assms
  by (auto simp: animate_def Let_def split: option.splits if_splits)

lemma animate_activePreset: "activePreset (animate t s) = activePreset s"
  by (auto simp: animate_def Let_def split: option.splits)

lemma step_Tick_completes:
  assumes "appState s = Running" and "preset_type (activePreset s) = Timer"
    and "previousTimeRef s = Some p" and "timerDuration s - deltaTime t p \<le> 0"
  shows "step (Tick t) s =
           Some (Inr (s\<lparr>totalSessionTime := totalSessionTime s + deltaTime t p,
                         appState := Completed, timerDuration := 0,
                         previousTimeRef := None\<rparr>))"
  using assms
  by (simp add: step_def handler_def animate_def Let_def commit_def startStopEffect_def settle_idle)

lemma step_to_Completed:
  assumes "appState s \<noteq> Completed" and "step e s = Some (Inr s')" and "appState s' = Completed"
  shows "(\<exists>t p. e = Tick t \<and> appState s = Running \<and> preset_type (activePreset s) = Timer
            \<and> previousTimeRef s = Some p \<and> timerDuration s - deltaTime t p \<le> 0)
         \<and> timerDuration s' = 0 \<and> activePreset s' = activePreset s"
proof -
  from assms(2) obtain x where h: "handler e s = Inr x"
    and eq: "appState s' = appState x" "timerDuration s' = timerDuration x"
      "activePreset s' = activePreset x"
    by (rule step_frame)
  from assms(3) eq have xc: "appState x = Completed" by simp
  show ?thesis
  proof (cases e)
    case (Tick t)
    with h have x: "x = animate t s" by (simp add: handler_def)
    with xc animate_Completed_iff[OF assms(1), of t] animate_Completed_zero[OF assms(1), of t]
      animate_activePreset[of t s] eq Tick
    show ?thesis by auto
  next
    case Toggle
    with handler_appState[OF h] xc show ?thesis by (simp split: if_splits)
  next
    case Reset
    with handler_appState[OF h] xc show ?thesis by simp
  next
    case (Select q)
    with handler_appState[OF h] xc show ?thesis by simp
  qed
qed

lemma step_Tick_activePreset:
  assumes "step (Tick t) s = Some (Inr s')"
  shows "activePreset s' = activePreset s"
proof -
  from assms obtain x where "handler (Tick t) s = Inr x" "activePreset s' = activePreset x"
    by (rule step_frame)
  then show ?thesis by (auto simp: handler_def animate_activePreset)
qed

lemma completed_only_timer:
  assumes "appState a = Completed \<longrightarrow> preset_type (activePreset a) = Timer"
    and "step e a = Some (Inr b)"
  shows "appState b = Completed \<longrightarrow> preset_type (activePreset b) = Timer"
proof
  assume bc: "appState b = Completed"
  show "preset_type (activePreset b) = Timer"
  proof (cases "appState a = Completed")
    case False
    from step_to_Completed[OF False assms(2) bc] show ?thesis by auto
  next
    case True
    from assms(2) obtain x where h: "handler e a = Inr x" and eq: "appState b = appState x"
      "activePreset b = activePreset x"
      by (rule step_frame)
    from handler_appState[OF h] bc eq True assms(1) show ?thesis
      by (cases e) (auto simp: animate_def split: if_splits)
  qed
qed

text \<open>
  C3. A frame on a running timer preset whose remaining time minus the delta is at most 0
  sets the run state to \<open>Completed\<close> and the remaining time to exactly 0. No other event
  moves a state that is not completed to \<open>Completed\<close>. Frames arriving in \<open>Completed\<close>
  change nothing, so the transition is taken once. With a breathing preset no sequence
  of frames reaches \<open>Completed\<close>, and no state reached from mounting is completed while
  its preset is a breathing preset.
\<close>

theorem timer_completion:
  "(appState a = Running \<and> preset_type (activePreset a) = Timer
      \<and> previousTimeRef a = Some p \<and> timerDuration a - deltaTime t p \<le> 0 \<longrightarrow>
      step (Tick t) a =
        Some (Inr (a\<lparr>totalSessionTime := totalSessionTime a + deltaTime t p,
                      appState := Completed, timerDuration := 0, previousTimeRef := None\<rparr>)))
   \<and> (appState b \<noteq> Completed \<and> step e b = Some (Inr b') \<and> appState b' = Completed \<longrightarrow>
      (\<exists>t' p'. e = Tick t' \<and> appState b = Running \<and> preset_type (activePreset b) = Timer
          \<and> previousTimeRef b = Some p' \<and> timerDuration b - deltaTime t' p' \<le> 0)
      \<and> timerDuration b' = 0)
   \<and> (appState c = Completed \<longrightarrow> run (map Tick ts) c = Some (Inr c))
   \<and> (preset_type (activePreset d) = Breathing \<and> appState d \<noteq> Completed
      \<and> run (map Tick us) d = Some (Inr d') \<longrightarrow> appState d' \<noteq> Completed)
   \<and> (run es (mount p0) = Some (Inr r) \<and> preset_type (activePreset r) = Breathing \<longrightarrow>
      appState r \<noteq> Completed)"
proof -
  have ticks: "appState d' \<noteq> Completed"
    if "preset_type (activePreset d) = Breathing" "appState d \<noteq> Completed"
      and run: "run (map Tick us) d = Some (Inr d')"
  proof -
    have "preset_type (activePreset d') = Breathing \<and> appState d' \<noteq> Completed"
    proof (rule run_invariant[OF run,
          where Q = "\<lambda>x. preset_type (activePreset x) = Breathing \<and> appState x \<noteq> Completed"])
      show "preset_type (activePreset d) = Breathing \<and> appState d \<noteq> Completed"
        using that by simp
    next
      fix e x y
      assume "e \<in> set (map Tick us)"
        and Q: "preset_type (activePreset x) = Breathing \<and> appState x \<noteq> Completed"
        and st: "step e x = Some (Inr y)"
      then obtain t where e: "e = Tick t" by auto
      from st e have "activePreset y = activePreset x" by (simp add: step_Tick_activePreset)
      moreover have "appState y \<noteq> Completed"
        using step_to_Completed[of x e y] Q st by auto
      ultimately show "preset_type (activePreset y) = Breathing \<and> appState y \<noteq> Completed"
        using Q by simp
    qed
    then show ?thesis by simp
  qed
  have reach: "appState r \<noteq> Completed"
    if run: "run es (mount p0) = Some (Inr r)" and br: "preset_type (activePreset r) = Breathing"
  proof -
    have "appState r = Completed \<longrightarrow> preset_type (activePreset r) = Timer"
      by (rule run_invariant[OF run,
            where Q = "\<lambda>x. appState x = Completed \<longrightarrow> preset_type (activePreset x) = Timer"])
         (simp_all add: mount_def completed_only_timer)
    with br show ?thesis by auto
  qed
  have c1: "appState a = Running \<and> preset_type (activePreset a) = Timer
      \<and> previousTimeRef a = Some p \<and> timerDuration a - deltaTime t p \<le> 0 \<longrightarrow>
      step (Tick t) a =
        Some (Inr (a\<lparr>totalSessionTime := totalSessionTime a + deltaTime t p,
                      appState := Completed, timerDuration := 0, previousTimeRef := None\<rparr>))"
    using step_Tick_completes[of a p t] by blast
  have c2: "appState b \<noteq> Completed \<and> step e b = Some (Inr b') \<and> appState b' = Completed \<longrightarrow>
      (\<exists>t' p'. e = Tick t' \<and> appState b = Running \<and> preset_type (activePreset b) = Timer
          \<and> previousTimeRef b = Some p' \<and> timerDuration b - deltaTime t' p' \<le> 0)
      \<and> timerDuration b' = 0"
    using step_to_Completed[of b e b'] by blast
  have c3: "appState c = Completed \<longrightarrow> run (map Tick ts) c = Some (Inr c)"
    by (simp add: run_Ticks_not_running)
  have c4: "preset_type (activePreset d) = Breathing \<and> appState d \<noteq> Completed
      \<and> run (map Tick us) d = Some (Inr d') \<longrightarrow> appState d' \<noteq> Completed"
    using ticks by blast
  have c5: "run es (mount p0) = Some (Inr r) \<and> preset_type (activePreset r) = Breathing \<longrightarrow>
      appState r \<noteq> Completed"
    using reach by blast
  show ?thesis
    by (rule conjI[OF c1 conjI[OF c2 conjI[OF c3 conjI[OF c4 c5]]]])
qed

theorem timer_completion_witness:
  "appState running_focus = Running \<and> preset_type (activePreset running_focus) = Timer
   \<and> previousTimeRef running_focus = Some 0 \<and> timerDuration running_focus - deltaTime 600000 0 \<le> 0
   \<and> step (Tick 600000) running_focus = Some (Inr completed_focus)
   \<and> appState running_focus \<noteq> Completed \<and> appState completed_focus = Completed
   \<and> timerDuration completed_focus = 0
   \<and> run (map Tick [1, 2]) completed_focus = Some (Inr completed_focus)
   \<and> preset_type (activePreset ((mount box)\<lparr>appState := Running, currentPhaseIndex := 1,
          phaseTimeLeft := 4\<rparr>)) = Breathing
   \<and> run (map Tick [0, 1000]) ((mount box)\<lparr>appState := Running, currentPhaseIndex := 1,
          phaseTimeLeft := 4\<rparr>)
       = Some (Inr ((mount box)\<lparr>appState := Running, currentPhaseIndex := 1, phaseTimeLeft := 3,
                       totalSessionTime := 1, previousTimeRef := Some 1000\<rparr>))
   \<and> appState ((mount box)\<lparr>appState := Running, currentPhaseIndex := 1, phaseTimeLeft := 3,
                       totalSessionTime := 1, previousTimeRef := Some 1000\<rparr>) \<noteq> Completed
   \<and> run [Toggle, Tick 1000] (mount box)
       = Some (Inr ((mount box)\<lparr>appState := Running, currentPhaseIndex := 1, phaseTimeLeft := 4,
                       previousTimeRef := Some 1000\<rparr>))
   \<and> appState ((mount box)\<lparr>appState := Running, currentPhaseIndex := 1, phaseTimeLeft := 4,
                       previousTimeRef := Some 1000\<rparr>) \<noteq> Completed"
  using timer_completion [of running_focus 0 600000 running_focus "Tick 600000" completed_focus
      completed_focus "[1, 2]"
      "(mount box)\<lparr>appState := Running, currentPhaseIndex := 1, phaseTimeLeft := 4\<rparr>"
      "[0, 1000]"
      "(mount box)\<lparr>appState := Running, currentPhaseIndex := 1, phaseTimeLeft := 3,
                    totalSessionTime := 1, previousTimeRef := Some 1000\<rparr>"
      "[Toggle, Tick 1000]" box
      "(mount box)\<lparr>appState := Running, currentPhaseIndex := 1, phaseTimeLeft := 4,
                    previousTimeRef := Some 1000\<rparr>"]
  by (simp add: run_defs settle_idle running_focus_def completed_focus_def mount_def focus_def box_def)

section \<open>Pausing\<close>

lemma phaseSwitchEffect_stable_baseline:
  assumes "phaseSwitchEffect r = Inr r"
  shows "phaseSwitchEffect (r\<lparr>previousTimeRef := x\<rparr>) = Inr (r\<lparr>previousTimeRef := x\<rparr>)"
proof (cases "phases (activePreset r)")
  case None
  then show ?thesis by (simp add: phaseSwitchEffect_def)
next
  case (Some ps)
  show ?thesis
  proof (cases "preset_type (activePreset r) = Breathing \<and> appState r = Running
                \<and> phaseTimeLeft r \<le> 0.05")
    case False
    with Some show ?thesis by (auto simp: phaseSwitchEffect_def)
  next
    case True
    with Some assms have ne: "length ps \<noteq> 0"
      by (auto simp: phaseSwitchEffect_def split: if_splits)
    let ?n = "(currentPhaseIndex r + 1) mod length ps"
    from True Some ne assms
    have "r\<lparr>currentPhaseIndex := ?n, phaseTimeLeft := duration (ps ! ?n)\<rparr> = r"
      by (simp add: phaseSwitchEffect_def Let_def)
    then have "currentPhaseIndex (r\<lparr>currentPhaseIndex := ?n, phaseTimeLeft := duration (ps ! ?n)\<rparr>) = currentPhaseIndex r"
      and "phaseTimeLeft (r\<lparr>currentPhaseIndex := ?n, phaseTimeLeft := duration (ps ! ?n)\<rparr>) = phaseTimeLeft r"
      by simp_all
    then have "?n = currentPhaseIndex r" "duration (ps ! ?n) = phaseTimeLeft r" by simp_all
    with True Some ne show ?thesis
      by (simp add: phaseSwitchEffect_def Let_def)
  qed
qed

lemma step_pause:
  assumes "appState r = Running"
  shows "step Toggle r = Some (Inr (r\<lparr>appState := Paused, previousTimeRef := None\<rparr>))"
  using assms
  by (simp add: step_def handler_def toggleTimer_def commit_def startStopEffect_def settle_idle)

lemma step_resume:
  assumes "appState r = Running" and "phaseSwitchEffect r = Inr r"
  shows "step Toggle (r\<lparr>appState := Paused, previousTimeRef := None\<rparr>)
           = Some (Inr (r\<lparr>previousTimeRef := None\<rparr>))"
proof -
  from assms(1) have eq: "r\<lparr>previousTimeRef := None, appState := Running\<rparr> = r\<lparr>previousTimeRef := None\<rparr>"
    by (cases r) simp
  from assms(2) have "settle (r\<lparr>previousTimeRef := None\<rparr>) = Some (Inr (r\<lparr>previousTimeRef := None\<rparr>))"
    by (intro settle_stable phaseSwitchEffect_stable_baseline)
  with eq show ?thesis
    by (simp add: step_def handler_def toggleTimer_def commit_def startStopEffect_def)
qed

lemma step_first_tick:
  assumes "appState r = Running" and "phaseSwitchEffect r = Inr r"
  shows "step (Tick t) (r\<lparr>previousTimeRef := None\<rparr>) = Some (Inr (r\<lparr>previousTimeRef := Some t\<rparr>))"
proof -
  from assms(2) have "settle (r\<lparr>previousTimeRef := Some t\<rparr>) = Some (Inr (r\<lparr>previousTimeRef := Some t\<rparr>))"
    by (intro settle_stable phaseSwitchEffect_stable_baseline)
  with assms(1) show ?thesis
    by (simp add: step_def handler_def animate_def commit_def)
qed

text \<open>
  C4. While the run state is not \<open>Running\<close> (paused, idle or completed), frames change
  nothing, whatever their timestamps. Pausing a running session, delivering any frames,
  resuming and delivering the first frame gives the state from before the pause with only
  the baseline moved: the elapsed time, the time left in the phase, the phase index and
  the remaining timer are as they were. This holds from every running state in which the
  phase-switch effect has nothing left to do, and so from every running state reached
  from mounting.
\<close>

theorem paused_clock_frozen:
  "(appState s \<noteq> Running \<longrightarrow> run (map Tick ts) s = Some (Inr s))
   \<and> (appState r = Running \<and> phaseSwitchEffect r = Inr r \<longrightarrow>
        run (Toggle # map Tick us @ [Toggle, Tick t]) r
          = Some (Inr (r\<lparr>previousTimeRef := Some t\<rparr>)))
   \<and> (run es (mount p0) = Some (Inr q) \<and> appState q = Running \<longrightarrow>
        run (Toggle # map Tick vs @ [Toggle, Tick u]) q
          = Some (Inr (q\<lparr>previousTimeRef := Some u\<rparr>)))"
proof -
  have resume: "run (Toggle # map Tick xs @ [Toggle, Tick x]) a
                  = Some (Inr (a\<lparr>previousTimeRef := Some x\<rparr>))"
    if run: "appState a = Running" and stable: "phaseSwitchEffect a = Inr a" for a xs x
  proof -
    let ?paused = "a\<lparr>appState := Paused, previousTimeRef := None\<rparr>"
    have "run (map Tick xs) ?paused = Some (Inr ?paused)"
      by (rule run_Ticks_not_running) simp
    then have "run (map Tick xs @ [Toggle, Tick x]) ?paused = run [Toggle, Tick x] ?paused"
      by (simp add: run_append)
    also have "\<dots> = Some (Inr (a\<lparr>previousTimeRef := Some x\<rparr>))"
      by (simp add: step_resume[OF run stable] step_first_tick[OF run stable])
    finally show ?thesis
      by (simp add: step_pause[OF run])
  qed
  have c1: "appState s \<noteq> Running \<longrightarrow> run (map Tick ts) s = Some (Inr s)"
    by (simp add: run_Ticks_not_running)
  have c2: "appState r = Running \<and> phaseSwitchEffect r = Inr r \<longrightarrow>
        run (Toggle # map Tick us @ [Toggle, Tick t]) r
          = Some (Inr (r\<lparr>previousTimeRef := Some t\<rparr>))"
    using resume[of r us t] by blast
  have c3: "run es (mount p0) = Some (Inr q) \<and> appState q = Running \<longrightarrow>
        run (Toggle # map Tick vs @ [Toggle, Tick u]) q
          = Some (Inr (q\<lparr>previousTimeRef := Some u\<rparr>))"
    using resume[of q vs u] reachable_settled[of es p0 q] by blast
  show ?thesis
    by (rule conjI[OF c1 conjI[OF c2 c3]])
qed

theorem paused_clock_frozen_witness:
  "appState completed_focus \<noteq> Running
   \<and> run (map Tick [5, 99999]) completed_focus = Some (Inr completed_focus)
   \<and> appState running_focus = Running \<and> phaseSwitchEffect running_focus = Inr running_focus
   \<and> run (Toggle # map Tick [7000, 3600000] @ [Toggle, Tick 3600016]) running_focus
       = Some (Inr (running_focus\<lparr>previousTimeRef := Some 3600016\<rparr>))
   \<and> run [Select box, Toggle, Tick 0] (mount box) = Some (Inr inhaling)
   \<and> appState inhaling = Running
   \<and> run (Toggle # map Tick [90000] @ [Toggle, Tick 90016]) inhaling
       = Some (Inr (inhaling\<lparr>previousTimeRef := Some 90016\<rparr>))"
  using paused_clock_frozen [of completed_focus "[5, 99999]" running_focus "[7000, 3600000]"
      3600016 "[Select box, Toggle, Tick 0]" box inhaling "[90000]" 90016]
  by (simp add: run_defs settle_idle running_focus_def completed_focus_def inhaling_def
        mount_def focus_def box_def)

section \<open>Bounds of a session\<close>

lemma within_bounds_iff:
  "within_bounds s \<longleftrightarrow>
     (preset_type (activePreset s) = Breathing \<longrightarrow>
        (\<exists>ps. phases (activePreset s) = Some ps \<and> currentPhaseIndex s < length ps
           \<and> phaseTimeLeft s \<le> duration (ps ! currentPhaseIndex s) + 0.05))
     \<and> (preset_type (activePreset s) = Timer \<longrightarrow>
        (\<exists>d. defaultDuration (activePreset s) = Some d
           \<and> 0 \<le> timerDuration s \<and> timerDuration s \<le> d * 60))"
  by (auto simp: within_bounds_def split: PresetType.splits option.splits)

lemma valid_breathing:
  assumes "valid_preset p" and "preset_type p = Breathing"
  obtains ph rest where "phases p = Some (ph # rest)" and "0 < duration ph"
    and "\<forall>q \<in> set (ph # rest). 0 < duration q"
  using assms
  by (cases "phases p"; cases "the (phases p)")
     (auto simp: valid_preset_def list_all_iff)

lemma valid_timer:
  assumes "valid_preset p" and "preset_type p = Timer"
  obtains d where "defaultDuration p = Some d" and "0 < d"
  using assms
  by (cases "defaultDuration p") (auto simp: valid_preset_def)

lemma mount_ok:
  assumes "valid_preset p0"
  shows "session_ok (mount p0)"
proof (cases "preset_type p0")
  case Breathing
  from assms Breathing obtain ph rest where "phases p0 = Some (ph # rest)" "0 < duration ph"
    by (rule valid_breathing)
  with assms Breathing show ?thesis
    by (simp add: session_ok_def within_bounds_iff mount_def)
next
  case Timer
  from assms Timer obtain d where "defaultDuration p0 = Some d" "0 < d"
    by (rule valid_timer)
  with assms Timer show ?thesis
    by (simp add: session_ok_def within_bounds_iff mount_def)
qed

lemma initPreset_ok:
  assumes "valid_preset p" and "initPreset p s = Inr x"
  shows "session_ok x"
proof (cases "preset_type p")
  case Breathing
  from assms(1) Breathing obtain ph rest where "phases p = Some (ph # rest)" "0 < duration ph"
    by (rule valid_breathing)
  with assms Breathing show ?thesis
    by (auto simp: session_ok_def within_bounds_iff initPreset_def)
next
  case Timer
  from assms(1) Timer obtain d where "defaultDuration p = Some d" "0 < d"
    by (rule valid_timer)
  with assms Timer show ?thesis
    by (auto simp: session_ok_def within_bounds_iff initPreset_def or_default_def)
qed

lemma toggleTimer_ok: "session_ok s \<Longrightarrow> session_ok (toggleTimer s)"
  by (simp add: session_ok_def within_bounds_iff toggleTimer_def)

lemma animate_ok:
  assumes "session_ok s" and "admissible (Tick t) s"
  shows "session_ok (animate t s)"
proof (cases "appState s = Running")
  case False
  with assms(1) show ?thesis by (simp add: animate_def)
next
  case True
  show ?thesis
  proof (cases "previousTimeRef s")
    case None
    with True assms(1) show ?thesis
      by (simp add: animate_def session_ok_def within_bounds_iff)
  next
    case (Some p)
    with assms(2) have dt: "0 \<le> deltaTime t p" by (simp add: deltaTime_def)
    from assms(1) have v: "valid_preset (activePreset s)" by (simp add: session_ok_def)
    show ?thesis
    proof (cases "preset_type (activePreset s)")
      case Breathing
      with v obtain ph rest where "phases (activePreset s) = Some (ph # rest)"
        by (rule valid_breathing)
      with True Some dt Breathing assms(1) show ?thesis
        by (simp add: animate_def Let_def session_ok_def within_bounds_iff)
    next
      case Timer
      with v obtain d where "defaultDuration (activePreset s) = Some d" "0 < d"
        by (rule valid_timer)
      with True Some dt Timer assms(1) show ?thesis
        by (simp add: animate_def Let_def session_ok_def within_bounds_iff)
    qed
  qed
qed

lemma startStopEffect_ok: "session_ok s \<Longrightarrow> session_ok (startStopEffect s)"
  by (simp add: session_ok_def within_bounds_iff startStopEffect_def)

lemma phaseSwitchEffect_ok:
  assumes "session_ok a" and "phaseSwitchEffect a = Inr b"
  shows "session_ok b"
proof (cases "b = a")
  case True
  with assms(1) show ?thesis by simp
next
  case False
  with assms(2) have br: "preset_type (activePreset a) = Breathing"
    by (auto simp: phaseSwitchEffect_def split: option.splits if_splits)
  from assms(1) have "valid_preset (activePreset a)" by (simp add: session_ok_def)
  from this br obtain ph rest where ps: "phases (activePreset a) = Some (ph # rest)"
    and pos: "\<forall>q \<in> set (ph # rest). 0 < duration q"
    by (rule valid_breathing)
  let ?n = "(currentPhaseIndex a + 1) mod length (ph # rest)"
  have lt: "?n < length (ph # rest)" by simp
  from assms(2) False ps
  have b: "b = a\<lparr>currentPhaseIndex := ?n, phaseTimeLeft := duration ((ph # rest) ! ?n)\<rparr>"
    by (auto simp: phaseSwitchEffect_def Let_def split: if_splits)
  from assms(1) br ps lt show ?thesis
    unfolding b session_ok_def within_bounds_iff by simp
qed

lemma handler_ok:
  assumes "session_ok a" and "admissible e a" and "handler e a = Inr x"
  shows "session_ok x"
proof (cases e)
  case (Tick t)
  with assms show ?thesis by (auto simp: handler_def animate_ok)
next
  case Toggle
  with assms show ?thesis by (auto simp: handler_def toggleTimer_ok)
next
  case Reset
  from assms(1) have "valid_preset (activePreset a)" by (simp add: session_ok_def)
  with assms(3) Reset show ?thesis by (auto simp: handler_def reset_def intro: initPreset_ok)
next
  case (Select p)
  with assms show ?thesis by (auto simp: handler_def intro: initPreset_ok)
qed

lemma step_ok:
  assumes "session_ok a" and "admissible e a" and "step e a = Some (Inr b)"
  shows "session_ok b"
proof -
  from assms(3) obtain x where h: "handler e a = Inr x"
    and st: "settle (if appState x \<noteq> appState a \<or> activePreset x \<noteq> activePreset a
                 then startStopEffect x else x) = Some (Inr b)"
    by (rule step_cases)
  from assms(1,2) h have "session_ok x" by (rule handler_ok)
  then have "session_ok (if appState x \<noteq> appState a \<or> activePreset x \<noteq> activePreset a
                 then startStopEffect x else x)"
    by (simp add: startStopEffect_ok)
  with st show ?thesis
    by (rule settle_invariant) (rule phaseSwitchEffect_ok)
qed

lemma run_admissible_invariant:
  assumes "run es s = Some (Inr s')" and "run_admissible es s" and "Q s"
    and "\<And>e a b. Q a \<Longrightarrow> admissible e a \<Longrightarrow> step e a = Some (Inr b) \<Longrightarrow> Q b"
  shows "Q s'"
  using assms(1-3)
proof (induction es arbitrary: s)
  case Nil
  then show ?case by simp
next
  case (Cons e es)
  from Cons.prems(1) obtain m where m: "step e s = Some (Inr m)" and rest: "run es m = Some (Inr s')"
    by (auto split: option.splits sum.splits)
  from Cons.prems(2) m have adm: "admissible e s" and radm: "run_admissible es m" by simp_all
  from Cons.prems(3) adm m have "Q m" by (rule assms(4))
  with rest radm show ?case by (rule Cons.IH)
qed

text \<open>
  C9. In every state reached from mounting a valid preset by any sequence of commands and
  frames as the environment delivers them (only valid presets are selected, and no frame
  has a timestamp earlier than the baseline), while the run state is \<open>Running\<close> or
  \<open>Paused\<close>: for a breathing preset the phase index is below the number of phases and
  \<open>phaseTimeLeft\<close> is at most the duration of the current phase plus 0.05; for a timer
  preset \<open>timerDuration\<close> lies between 0 and 60 times the minutes of the preset.
\<close>

theorem session_bounds:
  assumes "valid_preset p0" and "run_admissible es (mount p0)"
    and "run es (mount p0) = Some (Inr s)"
    and "appState s = Running \<or> appState s = Paused"
  shows "(preset_type (activePreset s) = Breathing \<longrightarrow>
            (\<exists>ps. phases (activePreset s) = Some ps \<and> currentPhaseIndex s < length ps
               \<and> phaseTimeLeft s \<le> duration (ps ! currentPhaseIndex s) + 0.05))
       \<and> (preset_type (activePreset s) = Timer \<longrightarrow>
            (\<exists>d. defaultDuration (activePreset s) = Some d
               \<and> 0 \<le> timerDuration s \<and> timerDuration s \<le> d * 60))"
proof -
  have "session_ok s"
    using assms(3,2) mount_ok[OF assms(1)] by (rule run_admissible_invariant) (rule step_ok)
  then show ?thesis
    by (simp add: session_ok_def within_bounds_iff)
qed

theorem session_bounds_witness:
  "valid_preset box
   \<and> run_admissible [Select focus, Toggle, Tick 0, Tick 1000, Toggle, Tick 5, Select box, Toggle, Tick 7, Tick 4007] (mount box)
   \<and> run [Select focus, Toggle, Tick 0, Tick 1000, Toggle, Tick 5, Select box, Toggle, Tick 7, Tick 4007] (mount box)
       = Some (Inr ((mount box)\<lparr>appState := Running, currentPhaseIndex := 1, phaseTimeLeft := 4,
                  totalSessionTime := 4, timerDuration := 599, previousTimeRef := Some 4007\<rparr>))
   \<and> appState ((mount box)\<lparr>appState := Running, currentPhaseIndex := 1, phaseTimeLeft := 4,
                  totalSessionTime := 4, timerDuration := 599, previousTimeRef := Some 4007\<rparr>) = Running
   \<and> currentPhaseIndex ((mount box)\<lparr>appState := Running, currentPhaseIndex := 1, phaseTimeLeft := 4,
                  totalSessionTime := 4, timerDuration := 599, previousTimeRef := Some 4007\<rparr>) < 4
   \<and> phaseTimeLeft ((mount box)\<lparr>appState := Running, currentPhaseIndex := 1, phaseTimeLeft := 4,
                  totalSessionTime := 4, timerDuration := 599, previousTimeRef := Some 4007\<rparr>) \<le> 4 + 0.05"
  using session_bounds [of box "[Select focus, Toggle, Tick 0, Tick 1000, Toggle, Tick 5, Select box, Toggle, Tick 7, Tick 4007]"
      "(mount box)\<lparr>appState := Running, currentPhaseIndex := 1, phaseTimeLeft := 4,
                  totalSessionTime := 4, timerDuration := 599, previousTimeRef := Some 4007\<rparr>"]
  by (simp add: run_defs settle_idle valid_preset_def mount_def box_def focus_def)

section \<open>The visual state\<close>

lemma progress_range:
  assumes "0 < duration ph" and "0 \<le> left" and "left \<le> duration ph"
  obtains p where "progress_of left ph = Some p" and "0 \<le> p" and "p \<le> 1"
proof
  from assms(1) show "progress_of left ph = Some (1 - left / duration ph)"
    by (simp add: progress_of_def)
  from assms show "0 \<le> 1 - left / duration ph" by simp
  from assms show "1 - left / duration ph \<le> 1" by simp
qed

text \<open>With the time left between 0 and the duration of the phase the scale stays between
  1 and 1.8.\<close>

lemma nominal_scale_range:
  assumes "phases (activePreset s) = Some ps" and "currentPhaseIndex s < length ps"
    and "0 < duration (ps ! currentPhaseIndex s)"
    and "0 \<le> phaseTimeLeft s" and "phaseTimeLeft s \<le> duration (ps ! currentPhaseIndex s)"
  shows "\<exists>v x. getVisualState s = Inr v \<and> targetScale v = Some x \<and> 1 \<le> x \<and> x \<le> 1.8"
proof -
  from assms(3,4,5) obtain p
    where p: "progress_of (phaseTimeLeft s) (ps ! currentPhaseIndex s) = Some p"
      and bounds: "0 \<le> p" "p \<le> 1"
    by (rule progress_range)
  from bounds have up: "1 \<le> 1 + p * 0.8" "1 + p * 0.8 \<le> 1.8"
    and down: "1 \<le> 1.8 - p * 0.8" "1.8 - p * 0.8 \<le> 1.8"
    by simp_all
  show ?thesis
  proof (cases "phase_type (ps ! currentPhaseIndex s)")
    case Inhale
    with assms(1,2) p have "\<exists>v. getVisualState s = Inr v \<and> targetScale v = Some (1 + p * 0.8)"
      by (simp add: getVisualState_def Let_def)
    with up show ?thesis by blast
  next
    case Exhale
    with assms(1,2) p have "\<exists>v. getVisualState s = Inr v \<and> targetScale v = Some (1.8 - p * 0.8)"
      by (simp add: getVisualState_def Let_def)
    with down show ?thesis by blast
  next
    case Hold
    with assms(1,2) have "\<exists>v. getVisualState s = Inr v
        \<and> (targetScale v = Some 1.8 \<or> targetScale v = Some 1)"
      by (simp add: getVisualState_def Let_def)
    then show ?thesis by force
  next
    case Sustain
    with assms(1,2) have "\<exists>v. getVisualState s = Inr v \<and> targetScale v = Some 1"
      by (simp add: getVisualState_def Let_def)
    then show ?thesis by force
  qed
qed

text \<open>
  C5 at a failing input. The box preset is selected and started, and the first frame sets
  the baseline; the next frame comes 4.5 seconds later (the first phase lasts 4 seconds).
  The state that is rendered then has \<open>phaseTimeLeft = -0.5\<close>; \<open>getVisualState\<close> computes
  the progress 1.125 without clamping it and the scale 1.9, above 1.8.
\<close>

theorem overshoot_scale:
  "run [Select box, Toggle, Tick 0] (mount box) = Some (Inr inhaling)
   \<and> animate 4500 inhaling =
       inhaling\<lparr>totalSessionTime := 9 / 2, phaseTimeLeft := - (1 / 2),
                 previousTimeRef := Some 4500\<rparr>
   \<and> progress_of (- (1 / 2)) (the (phases box) ! 0) = Some 1.125
   \<and> getVisualState (animate 4500 inhaling) =
       Inr \<lparr>targetScale = Some 1.9, transition = ''transform 0.1s linear'', vlabel = ''In''\<rparr>
   \<and> dynamicVisual (animate 4500 inhaling) = getVisualState (animate 4500 inhaling)
   \<and> (1.8 :: real) < 1.9"
  by (simp add: run_defs settle_idle dynamicVisual_def getVisualState_def progress_of_def
        inhaling_def mount_def box_def)

text \<open>
  C6 at two failing inputs. In the third of three Hold phases that follow an Inhale the
  code looks back two phases only and gives the scale 1, where the lookback of the
  specification reaches the Inhale and gives 1.8. In a Hold at index 1 after a Hold at
  index 0 the code does not wrap to the last phase, an Inhale, and gives 1 again.
\<close>

theorem hold_lookback_two_steps:
  "run [Select long_hold, Toggle, Tick 0, Tick 4000, Tick 6000, Tick 8000] (mount box)
     = Some (Inr third_hold)
   \<and> getVisualState third_hold =
       Inr \<lparr>targetScale = Some 1, transition = ''transform 0.1s linear'', vlabel = ''Hold''\<rparr>
   \<and> dynamicVisual third_hold = getVisualState third_hold
   \<and> nearest_non_hold (the (phases long_hold)) 3 (length (the (phases long_hold))) = Some Inhale
   \<and> spec_hold_scale (the (phases long_hold)) 3 = 1.8
   \<and> run [Select hold_first, Toggle, Tick 0, Tick 2000] (mount box) = Some (Inr second_hold)
   \<and> getVisualState second_hold =
       Inr \<lparr>targetScale = Some 1, transition = ''transform 0.1s linear'', vlabel = ''Hold''\<rparr>
   \<and> spec_hold_scale (the (phases hold_first)) 1 = 1.8"
  by (simp add: run_defs settle_idle dynamicVisual_def getVisualState_def progress_of_def
        spec_hold_scale_def third_hold_def second_hold_def mount_def box_def long_hold_def
        hold_first_def)

section \<open>Events return\<close>

text \<open>
  With a valid active preset whose phases all last longer than 0.05 seconds the effect
  loop ends, after at most one switch, and does not throw.
\<close>

lemma settle_returns:
  assumes "valid_preset (activePreset y)" and "phases_exceed_epsilon (activePreset y)"
  shows "\<exists>b. settle y = Some (Inr b)"
proof (cases "phaseSwitchEffect y = Inr y")
  case True
  then show ?thesis by (auto simp: settle_stable)
next
  case False
  then have br: "preset_type (activePreset y) = Breathing" and run: "appState y = Running"
    by (auto simp: phaseSwitchEffect_def split: option.splits if_splits)
  from assms(1) br obtain ph rest where ps: "phases (activePreset y) = Some (ph # rest)"
    by (rule valid_breathing)
  let ?n = "(currentPhaseIndex y + 1) mod length (ph # rest)"
  let ?y' = "y\<lparr>currentPhaseIndex := ?n, phaseTimeLeft := duration ((ph # rest) ! ?n)\<rparr>"
  from False ps br run have one: "phaseSwitchEffect y = Inr ?y'"
    by (auto simp: phaseSwitchEffect_def Let_def split: if_splits)
  have "?n < length (ph # rest)" by simp
  then have "(ph # rest) ! ?n \<in> set (ph # rest)" by (rule nth_mem)
  moreover from assms(2) ps have "\<forall>q \<in> set (ph # rest). 0.05 < duration q"
    by (simp add: phases_exceed_epsilon_def list_all_iff)
  ultimately have "0.05 < duration ((ph # rest) ! ?n)" by blast
  with ps br run have "phaseSwitchEffect ?y' = Inr ?y'"
    by (simp add: phaseSwitchEffect_def)
  then have "settle ?y' = Some (Inr ?y')" by (rule settle_stable)
  moreover from one False have "settle y = settle ?y'" by (intro settle_next) auto
  ultimately show ?thesis by simp
qed

lemma step_returns:
  assumes "session_ok a" and "phases_exceed_epsilon (activePreset a)"
    and "admissible e a"
    and "\<And>p. e = Select p \<Longrightarrow> phases_exceed_epsilon p"
  shows "\<exists>b. step e a = Some (Inr b)"
proof -
  from assms(1) have v: "valid_preset (activePreset a)" by (simp add: session_ok_def)
  have init: "\<exists>x. initPreset p a = Inr x \<and> activePreset x = p" if "valid_preset p" for p
  proof (cases "preset_type p")
    case Breathing
    with that obtain ph rest where "phases p = Some (ph # rest)" by (rule valid_breathing)
    with Breathing show ?thesis by (simp add: initPreset_def)
  next
    case Timer
    then show ?thesis by (simp add: initPreset_def)
  qed
  have "\<exists>x. handler e a = Inr x \<and> valid_preset (activePreset x)
          \<and> phases_exceed_epsilon (activePreset x)"
  proof (cases e)
    case (Tick t)
    with v assms(2) show ?thesis by (simp add: handler_def animate_activePreset)
  next
    case Toggle
    with v assms(2) show ?thesis by (simp add: handler_def toggleTimer_def)
  next
    case Reset
    with init[OF v] v assms(2) show ?thesis by (auto simp: handler_def reset_def)
  next
    case (Select p)
    with assms(3) have "valid_preset p" by simp
    with init[of p] assms(4)[OF Select] Select show ?thesis by (auto simp: handler_def)
  qed
  then obtain x where h: "handler e a = Inr x" and vx: "valid_preset (activePreset x)"
    and px: "phases_exceed_epsilon (activePreset x)"
    by blast
  let ?y = "if appState x \<noteq> appState a \<or> activePreset x \<noteq> activePreset a
            then startStopEffect x else x"
  have "activePreset ?y = activePreset x" by (simp add: startStopEffect_def)
  with vx px have "valid_preset (activePreset ?y)" "phases_exceed_epsilon (activePreset ?y)"
    by simp_all
  then have "\<exists>b. settle ?y = Some (Inr b)" by (rule settle_returns)
  with h show ?thesis by (simp add: step_def commit_def)
qed

end
